theory Spec2Isabelle
  imports Complex_Main "HOL-Library.Multiset"
begin

section \<open>Errors\<close>

text \<open>
  The Python exceptions the modelled code can raise. A function that can raise returns
  \<open>error + 'a\<close>, with \<open>Inl\<close> for the exception. The messages of the two configuration
  errors of \<open>trainers.py\<close> are Korean f-strings that end in the offending configuration
  value; the constructor carries that value.
\<close>

datatype error =
    ZeroDivisionError
  | KeyError
  | IndexError
  | AssertionError
  | AttributeError
  | SampleValueError
  | LengthMismatchError
  | UndefinedLossError string
  | NoSuchModelError string
  | TypeError string

section \<open>Tables (\<open>dataset.py\<close>)\<close>

text \<open>
  A pandas DataFrame is modelled as the list of its rows in positional order, each row
  paired with its index label. \<open>pd.read_csv\<close> gives the rows the labels
  \<open>0, 1, ..., n - 1\<close> (a RangeIndex); the preprocessing steps of \<open>DataPreprocess\<close> add
  and drop columns only (\<open>axis=1\<close>), so the row labels are those of \<open>read_csv\<close> when
  \<open>split\<close> and \<open>k_fold_split\<close> run. The content of a row is left abstract.
\<close>

type_synonym 'a frame = "(nat \<times> 'a) list"

definition read_csv :: "'a list \<Rightarrow> 'a frame" where
  "read_csv rows = zip [0..<length rows] rows"

definition index :: "'a frame \<Rightarrow> nat list" where
  "index df = map fst df"

text \<open>
  Python's slice bounds: a negative bound counts from the end, and both bounds are
  clipped to the length.
\<close>

definition slice_bound :: "nat \<Rightarrow> int \<Rightarrow> nat" where
  "slice_bound n i = (if i < 0 then nat (max 0 (int n + i)) else min n (nat i))"

definition iloc_slice :: "'a frame \<Rightarrow> int \<Rightarrow> int \<Rightarrow> 'a frame" where
  "iloc_slice df a b =
     (let s = slice_bound (length df) a; e = slice_bound (length df) b
      in take (e - s) (drop s df))"

text \<open>
  \<open>df.drop(labels)\<close> removes every row whose label is listed, and raises KeyError when a
  listed label is not in the index.
\<close>

definition drop_labels :: "'a frame \<Rightarrow> nat list \<Rightarrow> error + 'a frame" where
  "drop_labels df labels =
     (if set labels \<subseteq> set (index df)
      then Inr (filter (\<lambda>r. fst r \<notin> set labels) df)
      else Inl KeyError)"

record 'a DataPreprocess =
  train_df :: "'a frame"
  test_df :: "'a frame"

definition load_datas :: "'a list \<Rightarrow> 'a list \<Rightarrow> 'a DataPreprocess" where
  "load_datas train_rows test_rows =
     \<lparr>train_df = read_csv train_rows, test_df = read_csv test_rows\<rparr>"

subsection \<open>\<open>DataPreprocess.k_fold_split\<close>\<close>

record 'a fold_entry =
  fold_train_df :: "'a frame"
  fold_valid_df :: "'a frame"

text \<open>
  The body of the loop \<open>for fold in range(k_fold)\<close>, and the loop: the dictionary built
  so far is the accumulator, and an exception ends the loop.
\<close>

definition k_fold_body :: "'a frame \<Rightarrow> int \<Rightarrow> nat \<Rightarrow> error + 'a fold_entry" where
  "k_fold_body df size' fold' =
     (let valid_start_idx = int fold' * size';
          valid_end_idx = min (int (length df)) ((int fold' + 1) * size');
          valid_df = iloc_slice df valid_start_idx valid_end_idx
      in case drop_labels df (index valid_df) of
           Inl e \<Rightarrow> Inl e
         | Inr train \<Rightarrow> Inr \<lparr>fold_train_df = train, fold_valid_df = valid_df\<rparr>)"

fun k_fold_loop ::
  "'a frame \<Rightarrow> int \<Rightarrow> nat list \<Rightarrow> (nat \<rightharpoonup> 'a fold_entry) \<Rightarrow> error + (nat \<rightharpoonup> 'a fold_entry)"
where
  "k_fold_loop df size' [] k_folded_datasets = Inr k_folded_datasets"
| "k_fold_loop df size' (fold' # rest) k_folded_datasets =
     (case k_fold_body df size' fold' of
        Inl e \<Rightarrow> Inl e
      | Inr entry \<Rightarrow> k_fold_loop df size' rest (k_folded_datasets(fold' \<mapsto> entry)))"

text \<open>
  \<open>range(k_fold)\<close> is empty for \<open>k_fold \<le> 0\<close>; the floor division
  \<open>len(self.train_df) // k_fold\<close> raises for \<open>k_fold = 0\<close> (\<open>div\<close> on \<open>int\<close> rounds down
  as Python's \<open>//\<close> does).
\<close>

definition k_fold_split ::
  "'a DataPreprocess \<Rightarrow> int \<Rightarrow> error + ((nat \<rightharpoonup> 'a fold_entry) \<times> 'a frame)"
where
  "k_fold_split self k_fold =
     (if k_fold = 0 then Inl ZeroDivisionError
      else
        let size' = int (length (train_df self)) div k_fold
        in case k_fold_loop (train_df self) size' [0..<nat k_fold] Map.empty of
             Inl e \<Rightarrow> Inl e
           | Inr k_folded_datasets \<Rightarrow> Inr (k_folded_datasets, test_df self))"

subsection \<open>\<open>DataPreprocess.split\<close>\<close>

text \<open>
  \<open>int(x)\<close> on a float truncates towards zero. The ratio is a real number here; the
  float product \<open>len(indices) * valid_ratio\<close> can round to a neighbouring count, which
  changes the count drawn and nothing else in \<open>split\<close>.
\<close>

definition py_int :: "real \<Rightarrow> int" where
  "py_int x = (if 0 \<le> x then \<lfloor>x\<rfloor> else \<lceil>x\<rceil>)"


definition random_sample ::
  "(nat list \<Rightarrow> nat \<Rightarrow> nat list) \<Rightarrow> nat list \<Rightarrow> int \<Rightarrow> error + nat list"
where
  "random_sample rng population k =
     (if k < 0 \<or> int (length population) < k then Inl SampleValueError
      else Inr (rng population (nat k)))"

text \<open>\<open>df.iloc[positions]\<close> with a list of positions raises IndexError on a position out of range.\<close>

definition iloc_list :: "'a frame \<Rightarrow> nat list \<Rightarrow> error + 'a frame" where
  "iloc_list df positions =
     (if list_all (\<lambda>i. i < length df) positions
      then Inr (map (\<lambda>i. df ! i) positions)
      else Inl IndexError)"

definition split ::
  "(nat list \<Rightarrow> nat \<Rightarrow> nat list) \<Rightarrow> 'a DataPreprocess \<Rightarrow> real
     \<Rightarrow> error + ('a frame \<times> 'a frame \<times> 'a frame)"
where
  "split rng self valid_ratio =
     (let indices = [0..<length (train_df self)]
      in case random_sample rng indices (py_int (real (length indices) * valid_ratio)) of
           Inl e \<Rightarrow> Inl e
         | Inr valid_indices \<Rightarrow>
             (let train_indices = sorted_list_of_set (set indices - set valid_indices)
              in case iloc_list (train_df self) train_indices of
                   Inl e \<Rightarrow> Inl e
                 | Inr train \<Rightarrow>
                     (case iloc_list (train_df self) valid_indices of
                        Inl e \<Rightarrow> Inl e
                      | Inr valid \<Rightarrow>
                          if length train + length valid = length (train_df self)
                          then Inr (train, valid, test_df self)
                          else Inl AssertionError)))"

subsection \<open>\<open>SimpleDNNPreprocess._preprocess\<close>: substructure-count embeddings\<close>

text \<open>
  The bit info map of a molecule: a dictionary from substructure key to the tuple of the
  (atom, radius) pairs at which the substructure occurs, as an association list.
  \<open>Chem.MolFromSmiles\<close> followed by the Morgan generator is the chemistry toolkit's; it is
  the parameter \<open>mol_from_smiles\<close>, which gives \<open>None\<close> where the structure string does
  not parse.
\<close>

type_synonym bit_info = "(nat \<times> (nat \<times> nat) list) list"

text \<open>What \<open>smiles_to_morgan\<close> returns: the bit info map, or \<open>np.zeros((13_279,))\<close>.\<close>

datatype morgan_info = Info bit_info | Zeros nat

definition smiles_to_morgan :: "(string \<Rightarrow> bit_info option) \<Rightarrow> string \<Rightarrow> morgan_info" where
  "smiles_to_morgan mol_from_smiles smiles =
     (case mol_from_smiles smiles of Some info \<Rightarrow> Info info | None \<Rightarrow> Zeros 13279)"

text \<open>\<open>info.keys()\<close> and \<open>info.items()\<close>: a numpy array has neither attribute.\<close>

definition keys :: "morgan_info \<Rightarrow> error + nat list" where
  "keys info = (case info of Info d \<Rightarrow> Inr (map fst d) | Zeros n \<Rightarrow> Inl AttributeError)"

definition items :: "morgan_info \<Rightarrow> error + bit_info" where
  "items info = (case info of Info d \<Rightarrow> Inr d | Zeros n \<Rightarrow> Inl AttributeError)"

text \<open>
  \<open>column.apply(lambda info: morgan_key_set.update(info.keys()))\<close>: the set is updated row
  by row, and the first exception ends the pass.
\<close>

fun update_key_set :: "morgan_info list \<Rightarrow> nat set \<Rightarrow> error + nat set" where
  "update_key_set [] morgan_key_set = Inr morgan_key_set"
| "update_key_set (info # rest) morgan_key_set =
     (case keys info of
        Inl e \<Rightarrow> Inl e
      | Inr ks \<Rightarrow> update_key_set rest (morgan_key_set \<union> set ks))"

definition key2idx :: "nat list \<Rightarrow> (nat \<rightharpoonup> nat)" where
  "key2idx morgan_key = map_of (zip morgan_key [0..<length morgan_key])"

text \<open>
  A two-dimensional numpy array is the list of its rows. An assignment to
  \<open>embedding[i, j]\<close> raises IndexError outside the shape.
\<close>

definition np_zeros :: "nat \<Rightarrow> nat \<Rightarrow> real list list" where
  "np_zeros key_count radius_count = replicate key_count (replicate radius_count 0)"

definition set_item :: "real list list \<Rightarrow> nat \<Rightarrow> nat \<Rightarrow> real \<Rightarrow> error + real list list" where
  "set_item embedding i j v =
     (if i < length embedding \<and> j < length (embedding ! i)
      then Inr (embedding[i := (embedding ! i)[j := v]])
      else Inl IndexError)"

text \<open>
  \<open>dict(Counter(xs))\<close>: every different element of \<open>xs\<close> with its number of occurrences,
  in the order of first occurrence (\<open>remdups\<close> keeps the last occurrence of an element).
\<close>

definition Counter :: "nat list \<Rightarrow> (nat \<times> nat) list" where
  "Counter xs = map (\<lambda>x. (x, count_list xs x)) (rev (remdups (rev xs)))"

text \<open>The two loops of \<open>morgan_info_to_embedding\<close>, the inner one first.\<close>

fun assign_counts ::
  "(nat \<rightharpoonup> nat) \<Rightarrow> nat \<Rightarrow> (nat \<times> nat) list \<Rightarrow> real list list \<Rightarrow> error + real list list"
where
  "assign_counts total_morgan_key2idx key [] embedding = Inr embedding"
| "assign_counts total_morgan_key2idx key ((radius, count') # rest) embedding =
     (case total_morgan_key2idx key of
        None \<Rightarrow> Inl KeyError
      | Some i \<Rightarrow>
          (case set_item embedding i radius (real count') of
             Inl e \<Rightarrow> Inl e
           | Inr embedding' \<Rightarrow> assign_counts total_morgan_key2idx key rest embedding'))"

fun scatter_items ::
  "(nat \<rightharpoonup> nat) \<Rightarrow> bit_info \<Rightarrow> real list list \<Rightarrow> error + real list list"
where
  "scatter_items total_morgan_key2idx [] embedding = Inr embedding"
| "scatter_items total_morgan_key2idx ((key, radius_list) # rest) embedding =
     (case assign_counts total_morgan_key2idx key (Counter (map snd radius_list)) embedding of
        Inl e \<Rightarrow> Inl e
      | Inr embedding' \<Rightarrow> scatter_items total_morgan_key2idx rest embedding')"

definition morgan_info_to_embedding ::
  "(nat \<rightharpoonup> nat) \<Rightarrow> morgan_info \<Rightarrow> nat \<Rightarrow> nat \<Rightarrow> error + real list list"
where
  "morgan_info_to_embedding total_morgan_key2idx info key_count radius_count =
     (let embedding = np_zeros key_count radius_count
      in case items info of
           Inl e \<Rightarrow> Inl e
         | Inr d \<Rightarrow> scatter_items total_morgan_key2idx d embedding)"

text \<open>
  \<open>np.mean\<close> and \<open>np.std\<close> of a flat array; both are NaN (\<open>None\<close>) on an empty array. The
  standard deviation is the population one: the root of the mean squared deviation.
\<close>

definition np_mean :: "real list \<Rightarrow> real option" where
  "np_mean xs = (if xs = [] then None else Some (sum_list xs / real (length xs)))"

definition np_std :: "real list \<Rightarrow> real option" where
  "np_std xs =
     (case np_mean xs of
        None \<Rightarrow> None
      | Some m \<Rightarrow> map_option sqrt (np_mean (map (\<lambda>x. (x - m)\<^sup>2) xs)))"

text \<open>
  The value of a cell of the column \<open>morgan_embedding\<close>: an array of real numbers, or an
  array whose entries are all NaN or infinite (\<open>NonFinite\<close>). numpy divides by zero without
  raising, so \<open>mean / std\<close> with \<open>std = 0\<close> is NaN or infinite, and so is every entry of
  \<open>embedding - mean / std\<close> then; an array without entries stays as it is.
\<close>

datatype ndarray = Array "real list list" | NonFinite

definition standardization :: "ndarray \<Rightarrow> ndarray" where
  "standardization embedding =
     (case embedding of
        NonFinite \<Rightarrow> NonFinite
      | Array a \<Rightarrow>
          (case (np_mean (concat a), np_std (concat a)) of
             (Some mean, Some std) \<Rightarrow>
               if std = 0 then NonFinite else Array (map (map (\<lambda>x. x - mean / std)) a)
           | _ \<Rightarrow> Array a))"

text \<open>
  The normalisation as the specification words it: subtract the mean from every entry,
  then divide every entry by the standard deviation.
\<close>

definition spec_standardization :: "real list list \<Rightarrow> real list list" where
  "spec_standardization a =
     map (map (\<lambda>x. (x - the (np_mean (concat a))) / the (np_std (concat a)))) a"

text \<open>\<open>column.apply(f)\<close> for an \<open>f\<close> that can raise: row by row, up to the first exception.\<close>

fun apply_rows :: "('a \<Rightarrow> error + 'b) \<Rightarrow> 'a list \<Rightarrow> error + 'b list" where
  "apply_rows f [] = Inr []"
| "apply_rows f (x # xs) =
     (case f x of
        Inl e \<Rightarrow> Inl e
      | Inr y \<Rightarrow> (case apply_rows f xs of Inl e \<Rightarrow> Inl e | Inr ys \<Rightarrow> Inr (y # ys)))"

text \<open>
  \<open>df[name] = series\<close> aligns the series to the index of \<open>df\<close>: with the labels
  \<open>0, ..., n - 1\<close> on both sides, row \<open>i\<close> of \<open>df\<close> gets the value of row \<open>i\<close> of the series,
  and a missing value (\<open>None\<close>) where the series is shorter.
\<close>

definition align_to :: "nat \<Rightarrow> 'a list \<Rightarrow> 'a option list" where
  "align_to n series = map (\<lambda>i. if i < length series then Some (series ! i) else None) [0..<n]"

text \<open>
  \<open>_preprocess\<close>, from the structure strings of the train and of the test table to the
  column \<open>morgan_embedding\<close> of the train and of the test table. The last line of the
  source assigns \<open>self.train_df['morgan_embedding'].apply(standardization)\<close> to the test
  table.
\<close>

definition SimpleDNNPreprocess__preprocess ::
  "(string \<Rightarrow> bit_info option) \<Rightarrow> string list \<Rightarrow> string list
     \<Rightarrow> error + (ndarray list \<times> ndarray option list)"
where
  "SimpleDNNPreprocess__preprocess mol_from_smiles train_smiles test_smiles =
     (let train_info = map (smiles_to_morgan mol_from_smiles) train_smiles;
          test_info = map (smiles_to_morgan mol_from_smiles) test_smiles
      in case update_key_set train_info {} of
           Inl e \<Rightarrow> Inl e
         | Inr train_keys \<Rightarrow>
        (case update_key_set test_info train_keys of
           Inl e \<Rightarrow> Inl e
         | Inr morgan_key_set \<Rightarrow>
        (let morgan_key = sorted_list_of_set morgan_key_set;
             total_morgan_key2idx = key2idx morgan_key
         in case apply_rows (\<lambda>info. morgan_info_to_embedding total_morgan_key2idx info 13279 4)
                   train_info of
              Inl e \<Rightarrow> Inl e
            | Inr train_embedding \<Rightarrow>
           (case apply_rows (\<lambda>info. morgan_info_to_embedding total_morgan_key2idx info 13279 4)
                   test_info of
              Inl e \<Rightarrow> Inl e
            | Inr test_embedding \<Rightarrow>
           (let train_standardized = map (\<lambda>a. standardization (Array a)) train_embedding;
                test_standardized =
                  align_to (length test_smiles) (map standardization train_standardized)
            in Inr (train_standardized, test_standardized))))))"

section \<open>The training loop (\<open>trainers.py\<close>)\<close>

subsection \<open>\<open>Trainer.run\<close>: checkpoint selection\<close>

text \<open>
  The state of the loop in \<open>run\<close>: \<open>best_loss\<close>, and the epochs at which
  \<open>_save_best_model\<close> was called so far. What \<open>validate\<close> returns in each epoch depends on
  the model and the data; it is the parameter \<open>validate\<close>, a function of the epoch.
\<close>

record run_state =
  best_loss :: real
  saved_at :: "nat list"

fun run_epochs :: "(nat \<Rightarrow> real) \<Rightarrow> nat list \<Rightarrow> run_state \<Rightarrow> run_state" where
  "run_epochs validate [] st = st"
| "run_epochs validate (epoch # rest) st =
     (let valid_loss = validate epoch
      in run_epochs validate rest
           (if best_loss st = 0 \<or> valid_loss < best_loss st
            then \<lparr>best_loss = valid_loss, saved_at = saved_at st @ [epoch]\<rparr>
            else st))"

definition run :: "(nat \<Rightarrow> real) \<Rightarrow> int \<Rightarrow> run_state" where
  "run validate cfg_epoch =
     run_epochs validate [0..<nat cfg_epoch] \<lparr>best_loss = 0, saved_at = []\<rparr>"

subsection \<open>\<open>Trainer.inference\<close>: from pIC50 back to IC50\<close>




subsection \<open>\<open>Trainer.__init__\<close>: device, model and loss selection\<close>












section \<open>The embedding lookup of the MLP (\<open>models.py\<close>)\<close>

text \<open>
  A tensor of shape (batch, n) is the list of its rows. \<open>SimpleDNN._transform\<close>: the
  indices are \<open>1, ..., indice_size\<close>, the mask is 1 where the entry of \<open>x\<close> is not zero, and
  the output is their entrywise product, row by row.
\<close>

definition SimpleDNN__transform :: "real list list \<Rightarrow> nat list list" where
  "SimpleDNN__transform x =
     (let indice_size = (case x of [] \<Rightarrow> 0 | row # _ \<Rightarrow> length row);
          indices = map (\<lambda>i. i + 1) [0..<indice_size];
          mask = map (map (\<lambda>v. if v \<noteq> 0 then 1 else (0::nat))) x
      in map (\<lambda>mask_row. map2 (*) mask_row indices) mask)"

text \<open>
  \<open>nn.Embedding(num_embeddings, embedding_dim, padding_idx)\<close>: a table of
  \<open>num_embeddings\<close> rows of \<open>embedding_dim\<close> entries, drawn at random (\<open>init\<close> gives the
  entry drawn for a row and a column), with the row \<open>padding_idx\<close> set to zeros. That row
  gets no gradient, so a trained table is again of this form.
\<close>

definition nn_Embedding :: "(nat \<Rightarrow> nat \<Rightarrow> real) \<Rightarrow> nat \<Rightarrow> nat \<Rightarrow> nat \<Rightarrow> real list list" where
  "nn_Embedding init num_embeddings embedding_dim padding_idx =
     map (\<lambda>i. if i = padding_idx then replicate embedding_dim 0
               else map (init i) [0..<embedding_dim])
       [0..<num_embeddings]"

record CountMorganEmbedding =
  embed_dim :: nat
  bit_size :: nat
  radius_size :: nat
  embedding :: "real list list"

definition CountMorganEmbedding_init ::
  "(nat \<Rightarrow> nat \<Rightarrow> real) \<Rightarrow> nat \<Rightarrow> nat \<Rightarrow> nat \<Rightarrow> CountMorganEmbedding"
where
  "CountMorganEmbedding_init init embed_dim' bit_size' radius_size' =
     \<lparr>embed_dim = embed_dim', bit_size = bit_size', radius_size = radius_size',
      embedding = nn_Embedding init (bit_size' * radius_size' + 1) embed_dim' 0\<rparr>"

text \<open>
  \<open>torch.mean(t, dim=1)\<close> for one element of the batch: the entrywise mean of the vectors
  looked up. The mean of no vectors is 0/0 in every entry, a vector of NaN: \<open>None\<close>.
\<close>

definition mean_dim1 :: "nat \<Rightarrow> real list list \<Rightarrow> real list option" where
  "mean_dim1 d vs =
     (if vs = [] then None
      else Some (map (\<lambda>j. sum_list (map (\<lambda>v. v ! j) vs) / real (length vs)) [0..<d]))"

text \<open>
  \<open>CountMorganEmbedding.forward\<close>: look every index up (an index outside the table raises
  IndexError), then pool each element of the batch.
\<close>

definition CountMorganEmbedding_forward ::
  "CountMorganEmbedding \<Rightarrow> nat list list \<Rightarrow> error + real list option list"
where
  "CountMorganEmbedding_forward self x =
     (if list_all (list_all (\<lambda>i. i < length (embedding self))) x
      then Inr (map (\<lambda>row. mean_dim1 (embed_dim self) (map (\<lambda>i. embedding self ! i) row)) x)
      else Inl IndexError)"

section \<open>Properties\<close>

subsection \<open>Tables read by \<open>read_csv\<close>\<close>

lemma index_read_csv: "index (read_csv rows) = [0..<length rows]"
  by (simp add: index_def read_csv_def)

lemma length_read_csv: "length (read_csv rows) = length rows"
  by (simp add: read_csv_def)

lemma distinct_index_read_csv: "distinct (index (read_csv rows))"
  by (simp add: index_read_csv)

lemma distinct_index_imp_distinct: "distinct (index df) \<Longrightarrow> distinct df"
  by (simp add: index_def distinct_map)

subsection \<open>\<open>k_fold_split\<close>: the folds partition the table\<close>

lemma iloc_slice_nonneg:
  "iloc_slice df (int a) (int b) = take (min (length df) b - min (length df) a) (drop (min (length df) a) df)"
  by (simp add: iloc_slice_def slice_bound_def Let_def)

lemma set_iloc_slice_subset: "set (iloc_slice df a b) \<subseteq> set df"
  unfolding iloc_slice_def Let_def
  by (meson set_take_subset set_drop_subset subset_trans)

lemma index_iloc_slice_subset: "set (index (iloc_slice df a b)) \<subseteq> set (index df)"
  using set_iloc_slice_subset [of df a b] by (auto simp: index_def)

lemma k_fold_body_eq:
  "k_fold_body df sz f =
     Inr \<lparr>fold_train_df =
            filter (\<lambda>r. fst r \<notin> set (index (iloc_slice df (int f * sz) (min (int (length df)) ((int f + 1) * sz))))) df,
          fold_valid_df = iloc_slice df (int f * sz) (min (int (length df)) ((int f + 1) * sz))\<rparr>"
  by (simp add: k_fold_body_def Let_def drop_labels_def index_iloc_slice_subset)

lemma k_fold_loop_eq:
  "k_fold_loop df sz fs acc =
     Inr (\<lambda>f. if f \<in> set fs then (case k_fold_body df sz f of Inr e \<Rightarrow> Some e | Inl _ \<Rightarrow> None) else acc f)"
proof (induction fs arbitrary: acc)
  case Nil
  then show ?case by simp
next
  case (Cons f fs)
  show ?case
    by (simp add: k_fold_body_eq Cons.IH fun_eq_iff)
qed


lemma set_take_drop_nth:
  "set (take m (drop a xs)) = (\<lambda>i. xs ! i) ` {i. a \<le> i \<and> i < a + m \<and> i < length xs}"
proof (rule set_eqI, rule iffI)
  fix x assume "x \<in> set (take m (drop a xs))"
  then obtain j where j: "j < length (take m (drop a xs))" "x = take m (drop a xs) ! j"
    by (auto simp: in_set_conv_nth)
  then have "x = xs ! (a + j)" "a + j < a + m" "a + j < length xs"
    by auto
  then show "x \<in> (\<lambda>i. xs ! i) ` {i. a \<le> i \<and> i < a + m \<and> i < length xs}"
    by (intro image_eqI [where x = "a + j"]) auto
next
  fix x assume "x \<in> (\<lambda>i. xs ! i) ` {i. a \<le> i \<and> i < a + m \<and> i < length xs}"
  then obtain i where i: "a \<le> i" "i < a + m" "i < length xs" "x = xs ! i"
    by auto
  then have "i - a < length (take m (drop a xs))" "take m (drop a xs) ! (i - a) = x"
    by auto
  then show "x \<in> set (take m (drop a xs))"
    by (metis nth_mem)
qed

lemma fold_size_bound:
  fixes n k f :: nat
  assumes "0 < k" "f < k"
  shows "(f + 1) * (n div k) \<le> n"
proof -
  have "(f + 1) * (n div k) \<le> k * (n div k)"
    using assms by (intro mult_right_mono) auto
  also have "\<dots> \<le> n"
    by simp
  finally show ?thesis .
qed

lemma fold_valid_eq:
  fixes k f :: nat
  assumes "0 < k" "f < k"
  shows "iloc_slice df (int f * (int (length df) div int k))
           (min (int (length df)) ((int f + 1) * (int (length df) div int k)))
         = take (length df div k) (drop (f * (length df div k)) df)"
proof -
  let ?n = "length df" and ?s = "length df div k"
  have b: "(f + 1) * ?s \<le> ?n"
    using fold_size_bound [OF assms] .
  have a: "int f * (int ?n div int k) = int (f * ?s)"
    by (simp add: zdiv_int)
  have c0: "(int f + 1) * (int ?n div int k) = int ((f + 1) * ?s)"
    by (simp add: zdiv_int algebra_simps)
  have c: "min (int ?n) ((int f + 1) * (int ?n div int k)) = int ((f + 1) * ?s)"
    unfolding c0 using b by linarith
  have "iloc_slice df (int (f * ?s)) (int ((f + 1) * ?s))
          = take (min ?n ((f + 1) * ?s) - min ?n (f * ?s)) (drop (min ?n (f * ?s)) df)"
    by (rule iloc_slice_nonneg)
  also have "min ?n ((f + 1) * ?s) = (f + 1) * ?s"
    using b by simp
  also have "min ?n (f * ?s) = f * ?s"
    using b by simp
  also have "(f + 1) * ?s - f * ?s = ?s"
    by simp
  finally show ?thesis
    by (simp only: a c)
qed


lemma filter_labels_middle:
  assumes "distinct (map fst (A @ V @ B))"
  shows "filter (\<lambda>r. fst r \<in> set (map fst V)) (A @ V @ B) = V"
proof -
  have "filter (\<lambda>r. fst r \<in> set (map fst V)) A = []"
    using assms by (auto simp: filter_empty_conv)
  moreover have "filter (\<lambda>r. fst r \<in> set (map fst V)) B = []"
    using assms by (auto simp: filter_empty_conv)
  moreover have "filter (\<lambda>r. fst r \<in> set (map fst V)) V = V"
    by (auto simp: filter_id_conv)
  ultimately show ?thesis by simp
qed

lemma slice_decomposition: "xs = take a xs @ take m (drop a xs) @ drop m (drop a xs)"
  by (simp del: drop_drop)

lemma filter_labels_slice:
  assumes "distinct (index df)"
  shows "filter (\<lambda>r. fst r \<in> set (index (take m (drop a df)))) df = take m (drop a df)"
proof -
  let ?A = "take a df" and ?V = "take m (drop a df)" and ?B = "drop m (drop a df)"
  have d: "df = ?A @ ?V @ ?B"
    by (rule slice_decomposition)
  have "distinct (map fst (?A @ ?V @ ?B))"
    using assms d by (simp add: index_def)
  then have "filter (\<lambda>r. fst r \<in> set (map fst ?V)) (?A @ ?V @ ?B) = ?V"
    by (rule filter_labels_middle)
  then have "filter (\<lambda>r. fst r \<in> set (map fst ?V)) df = ?V"
    by (simp only: d [symmetric])
  then show ?thesis
    by (simp only: index_def)
qed

lemma mset_slice_complement:
  assumes "distinct (index df)"
  shows "mset (take m (drop a df))
           + mset (filter (\<lambda>r. fst r \<notin> set (index (take m (drop a df)))) df) = mset df"
proof -
  let ?P = "\<lambda>r. fst r \<in> set (index (take m (drop a df)))"
  have "mset (filter ?P df) + mset (filter (\<lambda>r. \<not> ?P r) df) = mset df"
    using multiset_partition [of "mset df" ?P] by simp
  then show ?thesis
    by (simp add: filter_labels_slice [OF assms])
qed

lemma slices_disjoint:
  fixes f g s :: nat
  assumes "distinct xs" "f \<noteq> g"
  shows "set (take s (drop (f * s) xs)) \<inter> set (take s (drop (g * s) xs)) = {}"
proof (rule ccontr)
  assume "set (take s (drop (f * s) xs)) \<inter> set (take s (drop (g * s) xs)) \<noteq> {}"
  then obtain x where "x \<in> set (take s (drop (f * s) xs))" "x \<in> set (take s (drop (g * s) xs))"
    by auto
  then obtain i j where i: "f * s \<le> i" "i < f * s + s" "i < length xs" "x = xs ! i"
    and j: "g * s \<le> j" "j < g * s + s" "j < length xs" "x = xs ! j"
    by (auto simp: set_take_drop_nth)
  have "i = j"
    using assms(1) i j by (simp add: nth_eq_iff_index_eq)
  have "f < g \<or> g < f"
    using assms(2) by auto
  then show False
  proof
    assume "f < g"
    then have "(f + 1) * s \<le> g * s"
      by (intro mult_right_mono) auto
    then show False
      using i j \<open>i = j\<close> by simp
  next
    assume "g < f"
    then have "(g + 1) * s \<le> f * s"
      by (intro mult_right_mono) auto
    then show False
      using i j \<open>i = j\<close> by simp
  qed
qed


lemma k_fold_split_eq:
  assumes "1 \<le> k"
  shows "k_fold_split (load_datas train_rows test_rows) k =
     Inr (\<lambda>f. if f < nat k
               then Some \<lparr>fold_train_df =
                            filter (\<lambda>r. fst r \<notin> set (index (take (length train_rows div nat k)
                                (drop (f * (length train_rows div nat k)) (read_csv train_rows)))))
                              (read_csv train_rows),
                          fold_valid_df = take (length train_rows div nat k)
                                (drop (f * (length train_rows div nat k)) (read_csv train_rows))\<rparr>
               else None,
          read_csv test_rows)"
proof -
  let ?df = "read_csv train_rows"
  have k: "0 < nat k" "k = int (nat k)" "k \<noteq> 0"
    using assms by auto
  have v: "iloc_slice ?df (int f * (int (length ?df) div k))
             (min (int (length ?df)) ((int f + 1) * (int (length ?df) div k)))
           = take (length train_rows div nat k) (drop (f * (length train_rows div nat k)) ?df)"
    if "f < nat k" for f
    using fold_valid_eq [OF k(1) that, of ?df] k(2) by (simp add: length_read_csv)
  show ?thesis
    unfolding k_fold_split_def load_datas_def Let_def
    using k(3) by (auto simp: k_fold_loop_eq k_fold_body_eq v fun_eq_iff)
qed

text \<open>
  Claim C6. For every table and every \<open>k \<ge> 1\<close>, \<open>k_fold_split\<close> returns (it raises nothing)
  a dictionary of exactly \<open>k\<close> folds, keyed \<open>0, ..., k - 1\<close>; the validation partitions of
  two different folds share no row; and in every fold the validation partition and the
  training partition together are the full table, each row of the table in exactly one of
  the two (the multiset equation).
\<close>

theorem k_fold_split_partition:
  assumes "1 \<le> k"
  shows "\<exists>folds. k_fold_split (load_datas train_rows test_rows) k = Inr (folds, read_csv test_rows)
     \<and> dom folds = {0..<nat k} \<and> card (dom folds) = nat k
     \<and> (\<forall>f g ef eg. folds f = Some ef \<and> folds g = Some eg \<and> f \<noteq> g
            \<longrightarrow> set (fold_valid_df ef) \<inter> set (fold_valid_df eg) = {})
     \<and> (\<forall>f e. folds f = Some e
            \<longrightarrow> set (fold_valid_df e) \<union> set (fold_train_df e) = set (read_csv train_rows)
              \<and> mset (fold_valid_df e) + mset (fold_train_df e) = mset (read_csv train_rows))"
proof -
  let ?df = "read_csv train_rows"
  let ?s = "length train_rows div nat k"
  let ?valid = "\<lambda>f. take ?s (drop (f * ?s) ?df)"
  let ?train = "\<lambda>f. filter (\<lambda>r. fst r \<notin> set (index (?valid f))) ?df"
  let ?folds = "\<lambda>f. if f < nat k
      then Some \<lparr>fold_train_df = ?train f, fold_valid_df = ?valid f\<rparr> else None"
  have di: "distinct (index ?df)"
    by (rule distinct_index_read_csv)
  have d: "distinct ?df"
    using di by (rule distinct_index_imp_distinct)
  have 1: "k_fold_split (load_datas train_rows test_rows) k = Inr (?folds, read_csv test_rows)"
    using k_fold_split_eq [OF assms] .
  have 2: "dom ?folds = {0..<nat k}"
    by (auto simp: dom_def)
  have 3: "card (dom ?folds) = nat k"
    unfolding 2 by simp
  have 4: "set (fold_valid_df ef) \<inter> set (fold_valid_df eg) = {}"
    if "?folds f = Some ef" "?folds g = Some eg" "f \<noteq> g" for f g ef eg
  proof -
    have "fold_valid_df ef = ?valid f" "fold_valid_df eg = ?valid g"
      using that by (auto split: if_splits)
    then show ?thesis
      using slices_disjoint [OF d that(3), of ?s] by simp
  qed
  have 5: "set (fold_valid_df e) \<union> set (fold_train_df e) = set ?df
           \<and> mset (fold_valid_df e) + mset (fold_train_df e) = mset ?df"
    if "?folds f = Some e" for f e
  proof -
    have e: "fold_valid_df e = ?valid f" "fold_train_df e = ?train f"
      using that by (auto split: if_splits)
    have m: "mset (fold_valid_df e) + mset (fold_train_df e) = mset ?df"
      unfolding e by (rule mset_slice_complement [OF di])
    have "set_mset (mset (fold_valid_df e) + mset (fold_train_df e)) = set_mset (mset ?df)"
      by (simp only: m)
    then have "set (fold_valid_df e) \<union> set (fold_train_df e) = set ?df"
      by simp
    then show ?thesis
      using m by simp
  qed
  show ?thesis
    using 1 2 3 4 5 by (intro exI [of _ ?folds]) blast
qed


theorem k_fold_split_partition_witness:
  "(1::int) \<le> 2 \<and>
   (\<exists>folds. k_fold_split (load_datas [''a'', ''b'', ''c'', ''d'', ''e''] [''t'']) 2
        = Inr (folds, read_csv [''t''])
     \<and> dom folds = {0..<nat 2} \<and> card (dom folds) = nat 2
     \<and> (\<forall>f g ef eg. folds f = Some ef \<and> folds g = Some eg \<and> f \<noteq> g
            \<longrightarrow> set (fold_valid_df ef) \<inter> set (fold_valid_df eg) = {})
     \<and> (\<forall>f e. folds f = Some e
            \<longrightarrow> set (fold_valid_df e) \<union> set (fold_train_df e)
                  = set (read_csv [''a'', ''b'', ''c'', ''d'', ''e''])
              \<and> mset (fold_valid_df e) + mset (fold_train_df e)
                  = mset (read_csv [''a'', ''b'', ''c'', ''d'', ''e''])))"
proof -
  have h: "(1::int) \<le> 2" by simp
  from h k_fold_split_partition [OF h, of "[''a'', ''b'', ''c'', ''d'', ''e'']" "[''t'']"]
  show ?thesis by (rule conjI)
qed

lemma leftover_not_in_valid:
  fixes k f s p :: nat
  assumes "distinct xs" "f < k" "k * s \<le> p" "p < length xs"
  shows "xs ! p \<notin> set (take s (drop (f * s) xs))"
proof
  assume "xs ! p \<in> set (take s (drop (f * s) xs))"
  then obtain i where i: "f * s \<le> i" "i < f * s + s" "i < length xs" "xs ! p = xs ! i"
    by (auto simp: set_take_drop_nth)
  have "p = i"
    using assms(1,4) i by (simp add: nth_eq_iff_index_eq)
  have "(f + 1) * s \<le> k * s"
    using assms(2) by (intro mult_right_mono) auto
  then show False
    using i assms(3) \<open>p = i\<close> by simp
qed

text \<open>
  Claim C10. When the table size \<open>n\<close> is not divisible by \<open>k\<close>, every row at a position
  \<open>p \<ge> k * (n div k)\<close> (there are \<open>n mod k\<close> such positions) is in the training partition of
  every fold and in the validation partition of none, so the union of the \<open>k\<close> validation
  partitions is a strict subset of the table.
\<close>

theorem k_fold_split_leftover_rows:
  assumes "1 \<le> k" "length train_rows mod nat k \<noteq> 0"
  shows "\<exists>folds. k_fold_split (load_datas train_rows test_rows) k = Inr (folds, read_csv test_rows)
     \<and> dom folds = {0..<nat k}
     \<and> (\<forall>p f e. nat k * (length train_rows div nat k) \<le> p \<and> p < length train_rows
                 \<and> folds f = Some e
            \<longrightarrow> read_csv train_rows ! p \<in> set (fold_train_df e)
              \<and> read_csv train_rows ! p \<notin> set (fold_valid_df e))
     \<and> card {p. nat k * (length train_rows div nat k) \<le> p \<and> p < length train_rows}
          = length train_rows mod nat k
     \<and> (\<Union>e \<in> ran folds. set (fold_valid_df e)) \<subset> set (read_csv train_rows)"
proof -
  let ?df = "read_csv train_rows"
  let ?n = "length train_rows"
  let ?s = "?n div nat k"
  let ?valid = "\<lambda>f. take ?s (drop (f * ?s) ?df)"
  let ?train = "\<lambda>f. filter (\<lambda>r. fst r \<notin> set (index (?valid f))) ?df"
  let ?folds = "\<lambda>f. if f < nat k
      then Some \<lparr>fold_train_df = ?train f, fold_valid_df = ?valid f\<rparr> else None"
  have di: "distinct (index ?df)"
    by (rule distinct_index_read_csv)
  have d: "distinct ?df"
    using di by (rule distinct_index_imp_distinct)
  have len: "length ?df = ?n"
    by (rule length_read_csv)
  have 1: "k_fold_split (load_datas train_rows test_rows) k = Inr (?folds, read_csv test_rows)"
    using k_fold_split_eq [OF assms(1)] .
  have 2: "dom ?folds = {0..<nat k}"
    by (auto simp: dom_def)
  have 3: "?df ! p \<in> set (fold_train_df e) \<and> ?df ! p \<notin> set (fold_valid_df e)"
    if "nat k * ?s \<le> p" "p < ?n" "?folds f = Some e" for p f e
  proof -
    have f: "f < nat k" and e: "fold_valid_df e = ?valid f" "fold_train_df e = ?train f"
      using that(3) by (auto split: if_splits)
    have nv: "?df ! p \<notin> set (?valid f)"
      using leftover_not_in_valid [OF d f that(1)] that(2) len by simp
    have "?df ! p \<in> set ?df"
      using that(2) len by simp
    also have "set ?df = set_mset (mset (?valid f) + mset (?train f))"
      by (simp only: mset_slice_complement [OF di] set_mset_mset)
    finally have "?df ! p \<in> set (?valid f) \<union> set (?train f)"
      by simp
    then show ?thesis
      using nv e by simp
  qed
  have "{p. nat k * ?s \<le> p \<and> p < ?n} = {nat k * ?s..<?n}"
    by auto
  then have 4: "card {p. nat k * ?s \<le> p \<and> p < ?n} = ?n mod nat k"
    by (simp add: minus_mult_div_eq_mod)
  have vs: "set (?valid f) \<subseteq> set ?df" for f
    by (meson set_take_subset set_drop_subset subset_trans)
  have sub: "(\<Union>e \<in> ran ?folds. set (fold_valid_df e)) \<subseteq> set ?df"
  proof
    fix x assume "x \<in> (\<Union>e \<in> ran ?folds. set (fold_valid_df e))"
    then obtain e f where "?folds f = Some e" "x \<in> set (fold_valid_df e)"
      by (auto simp: ran_def)
    then have "x \<in> set (?valid f)"
      by (auto split: if_splits)
    then show "x \<in> set ?df"
      using vs [of f] by blast
  qed
  have pos: "0 < ?n"
    using assms(2) by (cases "?n = 0") auto
  have last: "nat k * ?s \<le> ?n - 1"
  proof -
    have "nat k * ?s + ?n mod nat k = ?n"
      by simp
    then show ?thesis
      using assms(2) by linarith
  qed
  have "?df ! (?n - 1) \<notin> (\<Union>e \<in> ran ?folds. set (fold_valid_df e))"
  proof
    assume "?df ! (?n - 1) \<in> (\<Union>e \<in> ran ?folds. set (fold_valid_df e))"
    then obtain e f where "?folds f = Some e" "?df ! (?n - 1) \<in> set (fold_valid_df e)"
      by (auto simp: ran_def)
    then show False
      using 3 [OF last, of f e] pos by simp
  qed
  moreover have "?df ! (?n - 1) \<in> set ?df"
    using pos len by simp
  ultimately have 5: "(\<Union>e \<in> ran ?folds. set (fold_valid_df e)) \<subset> set ?df"
    using sub by blast
  have all3: "\<forall>p f e. nat k * ?s \<le> p \<and> p < ?n \<and> ?folds f = Some e
      \<longrightarrow> ?df ! p \<in> set (fold_train_df e) \<and> ?df ! p \<notin> set (fold_valid_df e)"
    using 3 by blast
  from 1 2 all3 4 5 show ?thesis
    by (intro exI [of _ ?folds] conjI)
qed

theorem k_fold_split_leftover_rows_witness:
  "(1::int) \<le> 2 \<and> length [''a'', ''b'', ''c'', ''d'', ''e''] mod nat 2 \<noteq> 0 \<and>
   (\<exists>folds. k_fold_split (load_datas [''a'', ''b'', ''c'', ''d'', ''e''] [''t'']) 2
        = Inr (folds, read_csv [''t''])
     \<and> dom folds = {0..<nat 2}
     \<and> (\<forall>p f e. nat 2 * (length [''a'', ''b'', ''c'', ''d'', ''e''] div nat 2) \<le> p
                 \<and> p < length [''a'', ''b'', ''c'', ''d'', ''e'']
                 \<and> folds f = Some e
            \<longrightarrow> read_csv [''a'', ''b'', ''c'', ''d'', ''e''] ! p \<in> set (fold_train_df e)
              \<and> read_csv [''a'', ''b'', ''c'', ''d'', ''e''] ! p \<notin> set (fold_valid_df e))
     \<and> card {p. nat 2 * (length [''a'', ''b'', ''c'', ''d'', ''e''] div nat 2) \<le> p
                \<and> p < length [''a'', ''b'', ''c'', ''d'', ''e'']}
          = length [''a'', ''b'', ''c'', ''d'', ''e''] mod nat 2
     \<and> (\<Union>e \<in> ran folds. set (fold_valid_df e))
          \<subset> set (read_csv [''a'', ''b'', ''c'', ''d'', ''e'']))"
proof -
  have h1: "(1::int) \<le> 2" by simp
  have h2: "length [''a'', ''b'', ''c'', ''d'', ''e''] mod nat 2 \<noteq> 0" by simp
  from h1 h2 k_fold_split_leftover_rows [OF h1 h2, of "[''t'']"]
  show ?thesis by (intro conjI)
qed

subsection \<open>\<open>split\<close>: train and validation partition the table\<close>




lemma py_int_unit_interval:
  assumes "0 \<le> valid_ratio" "valid_ratio \<le> 1"
  shows "0 \<le> py_int (real n * valid_ratio)" and "py_int (real n * valid_ratio) \<le> int n"
proof -
  have nonneg: "0 \<le> real n * valid_ratio"
    using assms(1) by simp
  then show "0 \<le> py_int (real n * valid_ratio)"
    by (simp add: py_int_def)
  have "real n * valid_ratio \<le> real n"
    using assms(2) by (simp add: mult_left_le)
  then have "\<lfloor>real n * valid_ratio\<rfloor> \<le> int n"
    by (simp add: floor_le_iff)
  then show "py_int (real n * valid_ratio) \<le> int n"
    using nonneg by (simp add: py_int_def)
qed




subsection \<open>\<open>standardization\<close>: what is subtracted\<close>

lemma standardization_Array:
  assumes "np_mean (concat a) = Some m" "np_std (concat a) = Some s" "s \<noteq> 0"
  shows "standardization (Array a) = Array (map (map (\<lambda>x. x - m / s)) a)"
  using assms by (simp add: standardization_def)

lemma spec_standardization_eq:
  assumes "np_mean (concat a) = Some m" "np_std (concat a) = Some s"
  shows "spec_standardization a = map (map (\<lambda>x. (x - m) / s)) a"
  using assms by (simp add: spec_standardization_def)

lemma map_map_eq_entry:
  assumes "map (map f) a = map (map g) a" "x \<in> set (concat a)"
  shows "f x = g x"
proof -
  obtain row where row: "row \<in> set a" "x \<in> set row"
    using assms(2) by auto
  have "map f row = map g row"
    using assms(1) row(1) by (simp add: map_eq_conv)
  then show ?thesis
    using row(2) by (simp add: map_eq_conv)
qed

lemma concat_replicate_zeros: "concat (replicate k (replicate r (0::real))) = replicate (k * r) 0"
  by (induction k) (simp_all add: replicate_add)

lemma one_hot_flat:
  "concat ((np_zeros 13279 4)[0 := [1, 0, 0, 0]]) = 1 # replicate 53115 0"
proof -
  have "np_zeros 13279 4 = replicate 4 0 # replicate 13278 (replicate 4 0)"
    unfolding np_zeros_def by (subst replicate_Suc [symmetric]) simp
  then have "concat ((np_zeros 13279 4)[0 := [1, 0, 0, 0]])
      = [1, 0, 0, 0] @ concat (replicate 13278 (replicate 4 (0::real)))"
    by simp
  also have "\<dots> = [1, 0, 0, 0] @ replicate 53112 0"
    by (simp only: concat_replicate_zeros) simp
  also have "\<dots> = 1 # (replicate 3 0 @ replicate 53112 0)"
    by (simp add: numeral_3_eq_3)
  also have "replicate 3 (0::real) @ replicate 53112 0 = replicate 53115 0"
    by (simp flip: replicate_add)
  finally show ?thesis .
qed

lemma one_hot_mean_std:
  "np_mean (concat ((np_zeros 13279 4)[0 := [1, 0, 0, 0]])) = Some (1 / 53116)"
  "np_std (concat ((np_zeros 13279 4)[0 := [1, 0, 0, 0]]))
     = Some (sqrt (((1 - 1 / 53116)\<^sup>2 + 53115 * (1 / 53116)\<^sup>2) / 53116))"
  unfolding one_hot_flat
  by (simp_all add: np_mean_def np_std_def sum_list_replicate)

text \<open>
  Claim C2 fails on the code. \<open>standardization\<close> returns \<open>embedding - mean / std\<close>, which
  Python reads as \<open>embedding - (mean / std)\<close>: the quotient of the mean by the standard
  deviation is subtracted from every entry, and no entry is divided. This differs from
  \<open>(e - mean(e)) / std(e)\<close> for every array with a non-zero entry whose standard deviation
  is neither 0 nor 1.
\<close>

theorem standardization_subtracts_quotient:
  assumes "np_mean (concat a) = Some m" and "np_std (concat a) = Some s"
    and "s \<noteq> 0" and "s \<noteq> 1" and "x \<in> set (concat a)" and "x \<noteq> 0"
  shows "standardization (Array a) = Array (map (map (\<lambda>x. x - m / s)) a)
         \<and> standardization (Array a) \<noteq> Array (spec_standardization a)"
proof
  show code: "standardization (Array a) = Array (map (map (\<lambda>x. x - m / s)) a)"
    using assms(1-3) by (rule standardization_Array)
  show "standardization (Array a) \<noteq> Array (spec_standardization a)"
  proof
    assume "standardization (Array a) = Array (spec_standardization a)"
    then have "map (map (\<lambda>x. x - m / s)) a = map (map (\<lambda>x. (x - m) / s)) a"
      using code spec_standardization_eq [OF assms(1,2)] by simp
    then have "x - m / s = (x - m) / s"
      using assms(5) by (rule map_map_eq_entry)
    then have "(x - m / s) * s = ((x - m) / s) * s"
      by simp
    moreover have "(x - m / s) * s = x * s - m"
      using assms(3) by (simp add: left_diff_distrib)
    moreover have "((x - m) / s) * s = x - m"
      using assms(3) by simp
    ultimately have "x * s - m = x - m"
      by simp
    then have "x * (s - 1) = 0"
      by (simp add: right_diff_distrib)
    then show False
      using assms(4,6) by simp
  qed
qed

theorem standardization_subtracts_quotient_witness:
  "np_mean (concat [[0, 4]]) = Some 2 \<and> np_std (concat [[0, 4]]) = Some 2
   \<and> (2::real) \<noteq> 0 \<and> (2::real) \<noteq> 1 \<and> (4::real) \<in> set (concat [[0, 4]]) \<and> (4::real) \<noteq> 0
   \<and> standardization (Array [[0, 4]]) = Array [[-1, 3]]
   \<and> spec_standardization [[0, 4]] = [[-1, 1]]
   \<and> standardization (Array [[0, 4]]) \<noteq> Array (spec_standardization [[0, 4]])
   \<and> standardization (Array ((np_zeros 13279 4)[0 := [1, 0, 0, 0]]))
       \<noteq> Array (spec_standardization ((np_zeros 13279 4)[0 := [1, 0, 0, 0]]))"
proof -
  have m: "np_mean (concat [[0, 4]]) = Some 2"
    by (simp add: np_mean_def)
  have s: "np_std (concat [[0, 4]]) = Some 2"
    by (simp add: np_std_def np_mean_def power2_eq_square)
  have h: "(2::real) \<noteq> 0" "(2::real) \<noteq> 1" "(4::real) \<in> set (concat [[0, 4]])" "(4::real) \<noteq> 0"
    by simp_all
  note t = standardization_subtracts_quotient [OF m s h]
  have v: "standardization (Array [[0, 4]]) = Array [[-1, 3]]"
    using t [THEN conjunct1] by simp
  have w: "spec_standardization [[0, 4]] = [[-1, 1]]"
    using spec_standardization_eq [OF m s] by simp
  let ?E = "(np_zeros 13279 4)[0 := [1, 0, 0, 0]]"
  let ?s = "sqrt (((1 - 1 / 53116)\<^sup>2 + 53115 * (1 / 53116)\<^sup>2) / 53116)"
  have g: "?s \<noteq> 0" "?s \<noteq> 1" "(1::real) \<in> set (concat ?E)" "(1::real) \<noteq> 0"
    by (simp_all add: one_hot_flat power2_eq_square)
  note u = standardization_subtracts_quotient [OF one_hot_mean_std g]
  from m s h v w t [THEN conjunct2] u [THEN conjunct2] show ?thesis
    by (intro conjI)
qed

subsection \<open>\<open>_preprocess\<close>: structure strings that do not parse\<close>

lemma update_key_set_Zeros:
  "Zeros n \<in> set infos \<Longrightarrow> update_key_set infos ks = Inl AttributeError"
proof (induction infos arbitrary: ks)
  case Nil
  then show ?case by simp
next
  case (Cons info infos)
  show ?case
  proof (cases info)
    case (Info d)
    then have "Zeros n \<in> set infos"
      using Cons.prems by simp
    then show ?thesis
      using Info Cons.IH by (simp add: keys_def)
  next
    case (Zeros k)
    then show ?thesis by (simp add: keys_def)
  qed
qed

lemma update_key_set_cases:
  "update_key_set infos ks = Inl AttributeError \<or> (\<exists>ks'. update_key_set infos ks = Inr ks')"
proof (induction infos arbitrary: ks)
  case Nil
  then show ?case by simp
next
  case (Cons info infos)
  then show ?case
    by (cases info) (simp_all add: keys_def)
qed

lemma preprocess_unparsed:
  assumes "s \<in> set train_smiles \<union> set test_smiles" "mol_from_smiles s = None"
  shows "SimpleDNNPreprocess__preprocess mol_from_smiles train_smiles test_smiles
           = Inl AttributeError"
proof -
  let ?train = "map (smiles_to_morgan mol_from_smiles) train_smiles"
  let ?test = "map (smiles_to_morgan mol_from_smiles) test_smiles"
  have z: "smiles_to_morgan mol_from_smiles s = Zeros 13279"
    using assms(2) by (simp add: smiles_to_morgan_def)
  show ?thesis
  proof (cases "s \<in> set train_smiles")
    case True
    then have "Zeros 13279 \<in> set ?train"
      using z by force
    then have "update_key_set ?train {} = Inl AttributeError"
      by (rule update_key_set_Zeros)
    then show ?thesis
      by (simp add: SimpleDNNPreprocess__preprocess_def)
  next
    case False
    then have "Zeros 13279 \<in> set ?test"
      using z assms(1) by force
    then have t: "update_key_set ?test ks = Inl AttributeError" for ks
      by (rule update_key_set_Zeros)
    from update_key_set_cases [of ?train "{}"] show ?thesis
      by (auto simp: SimpleDNNPreprocess__preprocess_def t)
  qed
qed

text \<open>
  Claim C1 fails on the code. For a structure string that does not parse,
  \<open>smiles_to_morgan\<close> returns a zero vector of 13279 entries, but the steps that follow
  call \<open>info.keys()\<close> and \<open>info.items()\<close> on it, and a numpy array has neither: the
  per-record embedding step (\<open>morgan_info_to_embedding\<close>) raises AttributeError on the
  zero vector, and \<open>_preprocess\<close> raises AttributeError for a table that holds such a
  string. (The zero vector also has 13279 entries where an embedding has 13279 times 4.)
\<close>

theorem unparsed_smiles_raises:
  "smiles_to_morgan (map_of [(''CCO'', [(10, [(0, 0)])])]) ''not a smiles'' = Zeros 13279
   \<and> morgan_info_to_embedding (key2idx [10]) (Zeros 13279) 13279 4 = Inl AttributeError
   \<and> SimpleDNNPreprocess__preprocess (map_of [(''CCO'', [(10, [(0, 0)])])])
        [''CCO'', ''not a smiles''] [''CCO''] = Inl AttributeError"
proof -
  let ?mol = "map_of [(''CCO'', [(10, [(0, 0)])])] :: string \<Rightarrow> bit_info option"
  have n: "?mol ''not a smiles'' = None"
    by simp
  have 1: "smiles_to_morgan ?mol ''not a smiles'' = Zeros 13279"
    using n by (simp add: smiles_to_morgan_def)
  have 2: "morgan_info_to_embedding (key2idx [10]) (Zeros 13279) 13279 4 = Inl AttributeError"
    by (simp add: morgan_info_to_embedding_def items_def)
  have "''not a smiles'' \<in> set [''CCO'', ''not a smiles''] \<union> set [''CCO'']"
    by simp
  then have 3: "SimpleDNNPreprocess__preprocess ?mol [''CCO'', ''not a smiles''] [''CCO'']
      = Inl AttributeError"
    using n by (rule preprocess_unparsed)
  from 1 2 3 show ?thesis
    by (intro conjI)
qed

subsection \<open>\<open>_preprocess\<close>: the embedding of a test record\<close>

lemma length_np_zeros: "length (np_zeros k r) = k"
  by (simp add: np_zeros_def)

lemma np_zeros_eq_Nil: "np_zeros k r = [] \<longleftrightarrow> k = 0"
  by (simp add: np_zeros_def)

lemma nth_np_zeros: "i < k \<Longrightarrow> np_zeros k r ! i = replicate r 0"
  by (simp add: np_zeros_def)

lemma preprocess_test_column:
  assumes "SimpleDNNPreprocess__preprocess mol_from_smiles train_smiles test_smiles = Inr (tr, te)"
  shows "te = align_to (length test_smiles) (map standardization tr)"
  using assms
  by (auto simp: SimpleDNNPreprocess__preprocess_def Let_def split: sum.splits)

lemma rowA: "(replicate 4 (0::real))[0 := 1] = [1, 0, 0, 0]"
  by (simp add: eval_nat_numeral)

lemma rowB: "(replicate 4 (0::real))[1 := 1] = [0, 1, 0, 0]"
  by (simp add: eval_nat_numeral)

lemma example_embedding_test:
  "morgan_info_to_embedding (key2idx [10]) (Info [(10, [(0, 1)])]) 13279 4
     = Inr ((np_zeros 13279 4)[0 := [0, 1, 0, 0]])"
  unfolding rowB [symmetric]
  by (simp add: morgan_info_to_embedding_def items_def key2idx_def Counter_def set_item_def
      length_np_zeros nth_np_zeros np_zeros_eq_Nil Let_def)

lemma example_preprocess:
  "SimpleDNNPreprocess__preprocess
     (map_of [(''CCO'', [(10, [(0, 0)])]), (''CCN'', [(10, [(0, 1)])])]) [''CCO''] [''CCN'']
   = Inr ([standardization (Array ((np_zeros 13279 4)[0 := [1, 0, 0, 0]]))],
          [Some (standardization (standardization
             (Array ((np_zeros 13279 4)[0 := [1, 0, 0, 0]]))))])"
  unfolding rowA [symmetric]
  by (simp add: SimpleDNNPreprocess__preprocess_def smiles_to_morgan_def keys_def
      morgan_info_to_embedding_def items_def key2idx_def Counter_def set_item_def
      length_np_zeros nth_np_zeros np_zeros_eq_Nil Let_def align_to_def)

lemma np_std_nonzero:
  assumes "x \<in> set xs" "y \<in> set xs" "x \<noteq> y"
  shows "\<exists>m s. np_mean xs = Some m \<and> np_std xs = Some s \<and> s \<noteq> 0"
proof -
  have ne: "xs \<noteq> []"
    using assms(1) by auto
  define m where "m = sum_list xs / real (length xs)"
  define v where "v = sum_list (map (\<lambda>x. (x - m)\<^sup>2) xs) / real (length xs)"
  have mean: "np_mean xs = Some m"
    using ne by (simp add: np_mean_def m_def)
  have std: "np_std xs = Some (sqrt v)"
    using ne by (simp add: np_std_def np_mean_def m_def v_def)
  have "sqrt v \<noteq> 0"
  proof
    assume "sqrt v = 0"
    then have "v = 0"
      by simp
    then have "sum_list (map (\<lambda>x. (x - m)\<^sup>2) xs) = 0"
      using ne by (simp add: v_def)
    moreover have "0 \<le> z" if "z \<in> set (map (\<lambda>x. (x - m)\<^sup>2) xs)" for z
      using that by auto
    ultimately have "\<forall>z \<in> set (map (\<lambda>x. (x - m)\<^sup>2) xs). z = 0"
      using sum_list_nonneg_eq_0_iff [of "map (\<lambda>x. (x - m)\<^sup>2) xs"] by blast
    moreover have "(x - m)\<^sup>2 \<in> set (map (\<lambda>x. (x - m)\<^sup>2) xs)"
      "(y - m)\<^sup>2 \<in> set (map (\<lambda>x. (x - m)\<^sup>2) xs)"
      using assms(1,2) by simp_all
    ultimately have "(x - m)\<^sup>2 = 0" "(y - m)\<^sup>2 = 0"
      by blast+
    then have "x = m" "y = m"
      by simp_all
    then show False
      using assms(3) by simp
  qed
  then show ?thesis
    using mean std by blast
qed

lemma standardization_shape:
  "standardization (Array a) = NonFinite
   \<or> (\<exists>c. standardization (Array a) = Array (map (map (\<lambda>x. x - c)) a))"
proof (cases "concat a = []")
  case True
  then have "standardization (Array a) = Array a"
    by (simp add: standardization_def np_mean_def np_std_def)
  moreover have "map (map (\<lambda>x. x - 0)) a = a"
    by (simp add: map_idI)
  ultimately show ?thesis
    by metis
next
  case False
  then obtain m s where "np_mean (concat a) = Some m" "np_std (concat a) = Some s"
    by (auto simp: np_mean_def np_std_def)
  then show ?thesis
    by (auto simp: standardization_def)
qed

lemma standardization_twice_shape:
  "standardization (standardization (Array a)) = NonFinite
   \<or> (\<exists>c. standardization (standardization (Array a)) = Array (map (map (\<lambda>x. x - c)) a))"
proof -
  from standardization_shape [of a] show ?thesis
  proof
    assume "standardization (Array a) = NonFinite"
    then show ?thesis
      by (simp add: standardization_def)
  next
    assume "\<exists>c. standardization (Array a) = Array (map (map (\<lambda>x. x - c)) a)"
    then obtain c1 where c1: "standardization (Array a) = Array (map (map (\<lambda>x. x - c1)) a)"
      by blast
    from standardization_shape [of "map (map (\<lambda>x. x - c1)) a"] show ?thesis
    proof
      assume "standardization (Array (map (map (\<lambda>x. x - c1)) a)) = NonFinite"
      then show ?thesis
        using c1 by simp
    next
      assume "\<exists>c. standardization (Array (map (map (\<lambda>x. x - c1)) a))
            = Array (map (map (\<lambda>x. x - c)) (map (map (\<lambda>x. x - c1)) a))"
      then obtain c2 where "standardization (Array (map (map (\<lambda>x. x - c1)) a))
            = Array (map (map (\<lambda>x. x - c2)) (map (map (\<lambda>x. x - c1)) a))"
        by blast
      then have "standardization (standardization (Array a))
            = Array (map (map (\<lambda>x. x - (c1 + c2))) a)"
        using c1 by (simp add: o_def diff_diff_eq)
      then show ?thesis
        by blast
    qed
  qed
qed

lemma example_test_differs:
  "standardization (standardization (Array ((np_zeros 13279 4)[0 := [1, 0, 0, 0]])))
     \<noteq> standardization (Array ((np_zeros 13279 4)[0 := [0, 1, 0, 0]]))"
proof -
  let ?A = "(np_zeros 13279 4)[0 := [1, 0, 0, 0]]"
  let ?B = "(np_zeros 13279 4)[0 := [0, 1, 0, 0]]"
  have "[0, 1, 0, 0] \<in> set ?B"
    by (rule set_update_memI) (simp add: length_np_zeros)
  moreover have "(0::real) \<in> set [0, 1, 0, 0]" "(1::real) \<in> set [0, 1, 0, 0]"
    by simp_all
  ultimately have "(0::real) \<in> \<Union> (set ` set ?B)" "(1::real) \<in> \<Union> (set ` set ?B)"
    by blast+
  then have "(0::real) \<in> set (concat ?B)" "(1::real) \<in> set (concat ?B)"
    by simp_all
  then obtain m s where "np_mean (concat ?B) = Some m" "np_std (concat ?B) = Some s" "s \<noteq> 0"
    using np_std_nonzero [of 0 "concat ?B" 1] by auto
  then have own: "standardization (Array ?B) = Array (map (map (\<lambda>x. x - m / s)) ?B)"
    by (simp add: standardization_def)
  from standardization_twice_shape [of ?A] show ?thesis
  proof
    assume "standardization (standardization (Array ?A)) = NonFinite"
    then show ?thesis
      using own by simp
  next
    assume "\<exists>c. standardization (standardization (Array ?A)) = Array (map (map (\<lambda>x. x - c)) ?A)"
    then obtain c where c: "standardization (standardization (Array ?A))
        = Array (map (map (\<lambda>x. x - c)) ?A)"
      by blast
    show ?thesis
    proof
      assume "standardization (standardization (Array ?A)) = standardization (Array ?B)"
      then have "map (map (\<lambda>x. x - c)) ?A = map (map (\<lambda>x. x - m / s)) ?B"
        using c own by simp
      then have "map (map (\<lambda>x. x - c)) ?A ! 0 = map (map (\<lambda>x. x - m / s)) ?B ! 0"
        by simp
      then show False
        by (simp add: length_np_zeros, elim conjE, linarith)
    qed
  qed
qed

text \<open>
  Claim C3 fails on the code for the test table. The last line of \<open>_preprocess\<close> assigns
  to the test table the (already normalised) column of the train table, normalised once
  more, row by row: the embedding of test record \<open>i\<close> is built from train record \<open>i\<close>.
  With one train record and one test record whose molecules have the same substructure
  key at different radii, the test record's embedding is the twice normalised embedding of
  the train record, and it differs from the normalised embedding of the counts of the test
  record's own molecule.
\<close>

theorem test_embedding_taken_from_train_row:
  "SimpleDNNPreprocess__preprocess
       (map_of [(''CCO'', [(10, [(0, 0)])]), (''CCN'', [(10, [(0, 1)])])]) [''CCO''] [''CCN'']
     = Inr ([standardization (Array ((np_zeros 13279 4)[0 := [1, 0, 0, 0]]))],
            [Some (standardization (standardization
               (Array ((np_zeros 13279 4)[0 := [1, 0, 0, 0]]))))])
   \<and> morgan_info_to_embedding (key2idx [10])
         (smiles_to_morgan (map_of [(''CCO'', [(10, [(0, 0)])]), (''CCN'', [(10, [(0, 1)])])])
            ''CCN'') 13279 4
       = Inr ((np_zeros 13279 4)[0 := [0, 1, 0, 0]])
   \<and> standardization (standardization (Array ((np_zeros 13279 4)[0 := [1, 0, 0, 0]])))
       \<noteq> standardization (Array ((np_zeros 13279 4)[0 := [0, 1, 0, 0]]))"
proof -
  have "smiles_to_morgan (map_of [(''CCO'', [(10, [(0, 0)])]), (''CCN'', [(10, [(0, 1)])])])
            ''CCN'' = Info [(10, [(0, 1)])]"
    by (simp add: smiles_to_morgan_def)
  then have own: "morgan_info_to_embedding (key2idx [10])
         (smiles_to_morgan (map_of [(''CCO'', [(10, [(0, 0)])]), (''CCN'', [(10, [(0, 1)])])])
            ''CCN'') 13279 4
       = Inr ((np_zeros 13279 4)[0 := [0, 1, 0, 0]])"
    by (simp only: example_embedding_test)
  from example_preprocess own example_test_differs show ?thesis
    by (intro conjI)
qed

text \<open>
  For every input: whenever \<open>_preprocess\<close> returns, the column of the test table is the
  column of the train table, normalised again and aligned by row label.
\<close>

theorem test_column_is_train_column:
  assumes "SimpleDNNPreprocess__preprocess mol_from_smiles train_smiles test_smiles = Inr (tr, te)"
  shows "te = align_to (length test_smiles) (map standardization tr)"
  using assms by (rule preprocess_test_column)

theorem test_column_is_train_column_witness:
  "SimpleDNNPreprocess__preprocess
       (map_of [(''CCO'', [(10, [(0, 0)])]), (''CCN'', [(10, [(0, 1)])])]) [''CCO''] [''CCN'']
     = Inr ([standardization (Array ((np_zeros 13279 4)[0 := [1, 0, 0, 0]]))],
            [Some (standardization (standardization
               (Array ((np_zeros 13279 4)[0 := [1, 0, 0, 0]]))))])
   \<and> [Some (standardization (standardization (Array ((np_zeros 13279 4)[0 := [1, 0, 0, 0]]))))]
       = align_to (length [''CCN''])
           (map standardization [standardization (Array ((np_zeros 13279 4)[0 := [1, 0, 0, 0]]))])"
  using example_preprocess test_column_is_train_column [OF example_preprocess]
  by (intro conjI)

text \<open>
  For every input: a structure string that does not parse, in either table, makes
  \<open>_preprocess\<close> raise AttributeError.
\<close>

theorem unparsed_smiles_always_raises:
  assumes "s \<in> set train_smiles \<union> set test_smiles" and "mol_from_smiles s = None"
  shows "SimpleDNNPreprocess__preprocess mol_from_smiles train_smiles test_smiles
           = Inl AttributeError"
  using assms by (rule preprocess_unparsed)

theorem unparsed_smiles_always_raises_witness:
  "''??'' \<in> set [''CCO''] \<union> set [''??'']
   \<and> (map_of [(''CCO'', [(10, [(0, 0)])])] :: string \<Rightarrow> bit_info option) ''??'' = None
   \<and> SimpleDNNPreprocess__preprocess (map_of [(''CCO'', [(10, [(0, 0)])])]) [''CCO''] [''??'']
       = Inl AttributeError"
proof -
  have h1: "''??'' \<in> set [''CCO''] \<union> set [''??'']"
    by simp
  have h2: "(map_of [(''CCO'', [(10, [(0, 0)])])] :: string \<Rightarrow> bit_info option) ''??'' = None"
    by simp
  from h1 h2 unparsed_smiles_always_raises
      [of "''??''" "[''CCO'']" "[''??'']" "map_of [(''CCO'', [(10, [(0, 0)])])]", OF h1 h2]
  show ?thesis
    by (intro conjI)
qed

subsection \<open>\<open>run\<close>: when the checkpoint is written\<close>

text \<open>
  Claim C4 fails on the code where a validation loss is exactly 0: \<open>run\<close> uses
  \<open>best_loss == .0\<close> for "no loss seen yet", so after an epoch whose validation loss is 0
  the next epoch is saved whatever its loss. With the losses 0, 1, 2 (strictly increasing
  after epoch 0) the checkpoint is written at epochs 0 and 1, and with the loss 0 in every
  epoch (an empty validation loader gives that) it is written in every epoch.
\<close>

theorem run_saves_after_zero_loss:
  "saved_at (run (\<lambda>epoch. real epoch) 3) = [0, 1]
   \<and> saved_at (run (\<lambda>epoch. 0) 3) = [0, 1, 2]"
  by (simp add: run_def upt_rec)

text \<open>
  Where every validation loss is positive the sentinel is never met again: the invariant
  of the loop after \<open>m\<close> epochs.
\<close>

lemma run_epochs_positive:
  assumes pos: "\<And>e. 0 < validate e"
    and inv: "m = 0 \<longrightarrow> best_loss st = 0"
      "0 < m \<longrightarrow> (\<exists>j<m. best_loss st = validate j)"
      "\<forall>j<m. best_loss st \<le> validate j"
  shows "saved_at (run_epochs validate [m..<m + k] st)
           = saved_at st @ filter (\<lambda>e. \<forall>j<e. validate e < validate j) [m..<m + k]"
  using inv
proof (induction k arbitrary: m st)
  case 0
  then show ?case by simp
next
  case (Suc k)
  let ?v = "validate m"
  let ?save = "best_loss st = 0 \<or> ?v < best_loss st"
  let ?st = "if ?save then \<lparr>best_loss = ?v, saved_at = saved_at st @ [m]\<rparr> else st"
  have cond: "?save \<longleftrightarrow> (\<forall>j<m. ?v < validate j)"
  proof (cases "m = 0")
    case True
    then show ?thesis using Suc.prems by simp
  next
    case False
    then obtain j where j: "j < m" "best_loss st = validate j"
      using Suc.prems(2) by auto
    then have "best_loss st \<noteq> 0"
      using pos [of j] by simp
    moreover have "?v < best_loss st \<longleftrightarrow> (\<forall>i<m. ?v < validate i)"
      using j Suc.prems(3) by (metis le_less_trans less_le_trans order_less_le_trans)
    ultimately show ?thesis by simp
  qed
  have i1: "Suc m = 0 \<longrightarrow> best_loss ?st = 0"
    by simp
  have i2: "0 < Suc m \<longrightarrow> (\<exists>j<Suc m. best_loss ?st = validate j)"
  proof (cases ?save)
    case True
    then show ?thesis by auto
  next
    case False
    then have "m \<noteq> 0" using Suc.prems(1) by auto
    then obtain j where "j < m" "best_loss st = validate j"
      using Suc.prems(2) by auto
    then show ?thesis using False by (auto intro: less_SucI)
  qed
  have i3: "\<forall>j<Suc m. best_loss ?st \<le> validate j"
  proof (cases ?save)
    case True
    then have "\<forall>j<m. ?v < validate j" using cond by simp
    then show ?thesis using True by (auto simp: less_Suc_eq)
  next
    case False
    then have "best_loss st \<le> ?v" by simp
    then show ?thesis using False Suc.prems(3) by (auto simp: less_Suc_eq)
  qed
  have "saved_at (run_epochs validate [Suc m..<Suc m + k] ?st)
          = saved_at ?st @ filter (\<lambda>e. \<forall>j<e. validate e < validate j) [Suc m..<Suc m + k]"
    by (rule Suc.IH [OF i1 i2 i3])
  moreover have "[m..<m + Suc k] = m # [Suc m..<Suc m + k]"
    by (simp add: upt_rec)
  ultimately show ?case
    using cond by (simp add: Let_def)
qed

text \<open>
  With positive validation losses, \<open>run\<close> saves exactly at the epochs whose validation
  loss is strictly lower than the loss of every earlier epoch.
\<close>

theorem run_saves_strict_improvements:
  assumes "\<And>e. 0 < validate e"
  shows "saved_at (run validate (int n)) = filter (\<lambda>e. \<forall>j<e. validate e < validate j) [0..<n]"
  using run_epochs_positive [of validate 0 "\<lparr>best_loss = 0, saved_at = []\<rparr>" n] assms
  by (simp add: run_def)

theorem run_saves_strict_improvements_witness:
  "saved_at (run (\<lambda>e. [3, 2, 4, 1, 5] ! (e mod 5)) (int 5))
     = filter (\<lambda>e. \<forall>j<e. [3, 2, 4, 1, 5 :: real] ! (e mod 5) < [3, 2, 4, 1, 5] ! (j mod 5)) [0..<5]"
proof -
  have "0 < [3, 2, 4, 1, 5 :: real] ! (e mod 5)" for e :: nat
  proof -
    have "e mod 5 < 5" by simp
    then have "e mod 5 \<in> {0, 1, 2, 3, 4}" by auto
    then show ?thesis by auto
  qed
  then show ?thesis
    by (rule run_saves_strict_improvements)
qed

subsection \<open>\<open>inference\<close>: the inverse transform\<close>


subsection \<open>\<open>Trainer.__init__\<close>: configuration errors\<close>






subsection \<open>The embedding lookup: padding\<close>

lemma transform_zero_record: "SimpleDNN__transform [replicate n 0] = [replicate n 0]"
proof -
  have "map2 (*) (replicate n (0::nat)) (map (\<lambda>i. i + 1) [0..<n]) = replicate n 0"
    by (rule nth_equalityI) simp_all
  then show ?thesis
    by (simp add: SimpleDNN__transform_def)
qed

lemma padding_row:
  "length (nn_Embedding init (b * r + 1) d 0) = b * r + 1"
  "nn_Embedding init (b * r + 1) d 0 ! 0 = replicate d 0"
  by (simp_all add: nn_Embedding_def nth_map_upt del: upt_Suc)

lemma mean_of_zero_vectors:
  assumes "0 < m"
  shows "mean_dim1 d (replicate m (replicate d 0)) = Some (replicate d 0)"
proof -
  have "sum_list (map (\<lambda>v. v ! j) (replicate m (replicate d (0::real)))) = 0" if "j < d" for j
    using that by (simp add: sum_list_replicate)
  then have "map (\<lambda>j. sum_list (map (\<lambda>v. v ! j) (replicate m (replicate d (0::real)))) / real m) [0..<d]
        = replicate d 0"
    by (intro nth_equalityI) simp_all
  then show ?thesis
    using assms by (simp add: mean_dim1_def)
qed

lemma forward_all_padding:
  assumes "0 < m"
  shows "CountMorganEmbedding_forward (CountMorganEmbedding_init init d b r) [replicate m 0]
           = Inr [Some (replicate d 0)]"
proof -
  define W where "W = nn_Embedding init (b * r + 1) d 0"
  have len: "length W = b * r + 1" and row0: "W ! 0 = replicate d 0"
    unfolding W_def by (rule padding_row)+
  have e: "embedding (CountMorganEmbedding_init init d b r) = W"
    and d: "embed_dim (CountMorganEmbedding_init init d b r) = d"
    by (simp_all add: CountMorganEmbedding_init_def W_def)
  have ok: "list_all (list_all (\<lambda>i. i < length W)) [replicate m 0]"
    by (simp add: len list_all_iff)
  show ?thesis
    unfolding CountMorganEmbedding_forward_def e d
    using ok by (simp add: row0 mean_of_zero_vectors [OF assms])
qed

lemma forward_zero_length:
  "CountMorganEmbedding_forward self [[]] = Inr [None]"
  by (simp add: CountMorganEmbedding_forward_def mean_dim1_def)

text \<open>
  Claim C8, as amended. Index 0 is the padding index: a record whose count vector is
  entirely zero (of any positive length) is transformed to padding indices only, and its
  pooled embedding is the zero vector, the same as the pooled embedding of any non-empty
  list of padding indices, whatever the other rows of the table hold.
\<close>

theorem zero_record_pools_to_zero_vector:
  assumes "0 < n" and "0 < m"
  shows "CountMorganEmbedding_forward (CountMorganEmbedding_init init d b r)
             (SimpleDNN__transform [replicate n 0])
           = Inr [Some (replicate d 0)]
         \<and> CountMorganEmbedding_forward (CountMorganEmbedding_init init d b r)
             (SimpleDNN__transform [replicate n 0])
           = CountMorganEmbedding_forward (CountMorganEmbedding_init init d b r) [replicate m 0]"
  by (simp add: transform_zero_record forward_all_padding [OF assms(1)]
      forward_all_padding [OF assms(2)])

theorem zero_record_pools_to_zero_vector_witness:
  "(0::nat) < 53116 \<and> (0::nat) < 1
   \<and> CountMorganEmbedding_forward (CountMorganEmbedding_init (\<lambda>i j. 1) 2 13279 4)
         (SimpleDNN__transform [replicate 53116 0])
       = Inr [Some (replicate 2 0)]
   \<and> CountMorganEmbedding_forward (CountMorganEmbedding_init (\<lambda>i j. 1) 2 13279 4)
         (SimpleDNN__transform [replicate 53116 0])
       = CountMorganEmbedding_forward (CountMorganEmbedding_init (\<lambda>i j. 1) 2 13279 4)
           [replicate 1 0]"
proof -
  have h1: "(0::nat) < 53116" and h2: "(0::nat) < 1"
    by simp_all
  note t = zero_record_pools_to_zero_vector [OF h1 h2, of "\<lambda>i j. 1" 2 13279 4]
  from h1 h2 t [THEN conjunct1] t [THEN conjunct2]
  show ?thesis by (intro conjI)
qed

text \<open>
  The claim as stated fails: the pooled embedding of a zero-length index list is the mean
  of no vectors, NaN in every entry, not the zero vector that the all-zero record gets.
\<close>

theorem zero_record_differs_from_zero_length_list:
  "CountMorganEmbedding_forward (CountMorganEmbedding_init (\<lambda>i j. 1) 2 13279 4)
       (SimpleDNN__transform [replicate 53116 0])
     \<noteq> CountMorganEmbedding_forward (CountMorganEmbedding_init (\<lambda>i j. 1) 2 13279 4) [[]]"
proof -
  have "(0::nat) < 53116"
    by simp
  then have "CountMorganEmbedding_forward (CountMorganEmbedding_init (\<lambda>i j. 1) 2 13279 4)
       (SimpleDNN__transform [replicate 53116 0]) = Inr [Some (replicate 2 0)]"
    by (simp only: transform_zero_record forward_all_padding)
  then show ?thesis
    by (simp add: forward_zero_length)
qed

end
